theory Spec2Isabelle
  imports Main "HOL-Library.Word"
begin

unbundle bit_operations_syntax

section \<open>The WebUSB transport of python-trezor (trezorlib/transport/webusb.py)\<close>

text \<open>
  The module talks to the \<^verbatim>\<open>usb1\<close> library. Its calls are effects: the model keeps the
  list of calls made so far (the trace) and takes the library's answers from a
  \<open>driver\<close>, a family of functions of the trace, so that the same call may be answered
  differently at different moments. Every call of the library may raise a
  \<^verbatim>\<open>usb1.USBError\<close>. A Python exception is a value of \<open>exn\<close>. A method returns its
  outcome together with the state it leaves behind, because a Python exception does
  not undo the assignments made before it.
\<close>

subsection \<open>Constants\<close>

definition DEV_TREZOR1 :: "nat \<times> nat" where
  "DEV_TREZOR1 = (0x534c, 0x0001)"

definition DEV_TREZOR2 :: "nat \<times> nat" where
  "DEV_TREZOR2 = (0x1209, 0x53c1)"

definition DEV_TREZOR2_BL :: "nat \<times> nat" where
  "DEV_TREZOR2_BL = (0x1209, 0x53c0)"

definition INTERFACE :: nat where
  "INTERFACE = 0"

definition ENDPOINT :: nat where
  "ENDPOINT = 1"

definition DEBUG_INTERFACE :: nat where
  "DEBUG_INTERFACE = 1"

definition DEBUG_ENDPOINT :: nat where
  "DEBUG_ENDPOINT = 2"

text \<open>\<^verbatim>\<open>usb1.libusb1.LIBUSB_CLASS_VENDOR_SPEC\<close>, the USB class code 0xff of libusb.\<close>

definition LIBUSB_CLASS_VENDOR_SPEC :: nat where
  "LIBUSB_CLASS_VENDOR_SPEC = 0xff"

subsection \<open>Data\<close>

type_synonym bytes = "8 word list"

text \<open>A connection, \<^verbatim>\<open>usb1.USBDeviceHandle\<close>, is named by a number.\<close>

type_synonym conn = nat

datatype usb_error =
    USBErrorIO
  | USBErrorAccess
  | USBErrorNoDevice
  | USBErrorNotFound
  | USBErrorBusy
  | USBErrorTimeout
  | USBErrorPipe
  | USBErrorNotSupported
  | USBErrorOther

text \<open>
  \<open>IOError\<close> carries its argument tuple; \<open>TransportException\<close> its message.
\<close>

datatype exn =
    IOError "string list"
  | TransportException string
  | AssertionError
  | IndexError
  | USBError usb_error

text \<open>
  A device descriptor, \<^verbatim>\<open>usb1.USBDevice\<close>, is what its accessors return. The bus number
  and the port numbers are \<^verbatim>\<open>uint8_t\<close> in libusb and non-negative Python ints here.
  \<open>configurations\<close> gives the class code of alternate setting \<open>a\<close> of interface \<open>i\<close>
  of configuration \<open>c\<close> at \<open>configurations ! c ! i ! a\<close>. \<open>getProduct\<close> is the outcome
  of the product-string query on this entry of the device list: it opens the device,
  so it may raise.
\<close>

record usb_device =
  getVendorID :: nat
  getProductID :: nat
  getBusNumber :: nat
  getPortNumberList :: "nat list"
  configurations :: "nat list list list"
  getProduct :: "usb_error + string option"

datatype event =
    DeviceOpen usb_device
  | ClaimInterface conn nat
  | ReleaseInterface conn nat
  | HandleClose conn
  | InterruptWrite conn nat bytes
  | InterruptRead conn nat nat
  | Sleep
  | ContextCreate
  | ContextOpen
  | AtexitRegister
  | GetDeviceIterator
  | GetProduct usb_device

text \<open>
  The answers of the library, each a function of the calls made before it. \<open>Sleep\<close> is
  \<^verbatim>\<open>time.sleep(0.001)\<close>; it is in the trace because time passing is what lets a later
  read be answered differently.
\<close>

record driver =
  device_open :: "event list \<Rightarrow> usb_device \<Rightarrow> usb_error + conn option"
  claimInterface :: "event list \<Rightarrow> conn \<Rightarrow> nat \<Rightarrow> usb_error + unit"
  releaseInterface :: "event list \<Rightarrow> conn \<Rightarrow> nat \<Rightarrow> usb_error + unit"
  handle_close :: "event list \<Rightarrow> conn \<Rightarrow> usb_error + unit"
  interruptWrite :: "event list \<Rightarrow> conn \<Rightarrow> nat \<Rightarrow> bytes \<Rightarrow> usb_error + unit"
  interruptRead :: "event list \<Rightarrow> conn \<Rightarrow> nat \<Rightarrow> nat \<Rightarrow> usb_error + bytes"
  context_open :: "event list \<Rightarrow> usb_error + unit"
  getDeviceIterator :: "event list \<Rightarrow> usb_error + usb_device list"

text \<open>
  A \<^verbatim>\<open>WebUsbHandle\<close> object. The field \<open>handle\<close> is \<open>None\<close> when the handle is closed
  and the connection when it is open.
\<close>

record WebUsbHandle =
  device :: usb_device
  interface :: nat
  endpoint :: nat
  count :: nat
  handle :: "conn option"

subsection \<open>Strings\<close>

definition digit_char :: "nat \<Rightarrow> char" where
  "digit_char d = ''0123456789'' ! (d mod 10)"

text \<open>\<^verbatim>\<open>str(n)\<close> and \<^verbatim>\<open>'%d' % n\<close> for a non-negative int.\<close>

fun str_nat :: "nat \<Rightarrow> string" where
  "str_nat n = (if n < 10 then [digit_char n] else str_nat (n div 10) @ [digit_char (n mod 10)])"

declare str_nat.simps [simp del]

text \<open>\<^verbatim>\<open>'%03i' % (n, )\<close> for a non-negative int: zeros on the left up to width 3.\<close>

definition fmt_03i :: "nat \<Rightarrow> string" where
  "fmt_03i n = replicate (3 - length (str_nat n)) (CHR ''0'') @ str_nat n"

text \<open>\<^verbatim>\<open>sep.join(xs)\<close>\<close>

fun join :: "string \<Rightarrow> string list \<Rightarrow> string" where
  "join sep [] = []"
| "join sep [x] = x"
| "join sep (x # y # ys) = x @ sep @ join sep (y # ys)"

text \<open>\<^verbatim>\<open>s.startswith(p)\<close>\<close>

definition startswith :: "string \<Rightarrow> string \<Rightarrow> bool" where
  "startswith s p = (take (length p) s = p)"

subsection \<open>WebUsbHandle\<close>

definition WebUsbHandle_init :: "usb_device \<Rightarrow> bool \<Rightarrow> WebUsbHandle" where
  "WebUsbHandle_init dev debug =
     \<lparr>device = dev,
      interface = (if debug then DEBUG_INTERFACE else INTERFACE),
      endpoint = (if debug then DEBUG_ENDPOINT else ENDPOINT),
      count = 0,
      handle = None\<rparr>"

definition udev_hint :: string where
  "udev_hint = ''Do you have udev rules installed? https://github.com/trezor/trezor-common/blob/master/udev/51-trezor.rules''"

text \<open>
  \<^verbatim>\<open>WebUsbHandle.open\<close>; \<open>platform\<close> is \<^verbatim>\<open>sys.platform\<close>. The result of
  \<^verbatim>\<open>self.device.open()\<close> is assigned to \<^verbatim>\<open>self.handle\<close> before anything else is done
  with it.
\<close>

definition WebUsbHandle_open ::
  "driver \<Rightarrow> string \<Rightarrow> WebUsbHandle \<times> event list \<Rightarrow> (exn + unit) \<times> (WebUsbHandle \<times> event list)" where
  "WebUsbHandle_open drv platform st =
     (case st of (self, t) \<Rightarrow>
        let t1 = t @ [DeviceOpen (device self)] in
        (case device_open drv t (device self) of
           Inl e \<Rightarrow> (Inl (USBError e), (self, t1))
         | Inr r \<Rightarrow>
             let self1 = self\<lparr>handle := r\<rparr> in
             (case handle self1 of
                None \<Rightarrow>
                  (Inl (IOError (''Cannot open device'' #
                      (if startswith platform ''linux'' then [udev_hint] else []))),
                   (self1, t1))
              | Some c \<Rightarrow>
                  let t2 = t1 @ [ClaimInterface c (interface self1)] in
                  (case claimInterface drv t1 c (interface self1) of
                     Inl e \<Rightarrow> (Inl (USBError e), (self1, t2))
                   | Inr u \<Rightarrow> (Inr (), (self1, t2))))))"

text \<open>\<^verbatim>\<open>WebUsbHandle.close\<close>\<close>

definition WebUsbHandle_close ::
  "driver \<Rightarrow> WebUsbHandle \<times> event list \<Rightarrow> (exn + unit) \<times> (WebUsbHandle \<times> event list)" where
  "WebUsbHandle_close drv st =
     (case st of (self, t) \<Rightarrow>
        (case handle self of
           Some c \<Rightarrow>
             let t1 = t @ [ReleaseInterface c (interface self)] in
             (case releaseInterface drv t c (interface self) of
                Inl e \<Rightarrow> (Inl (USBError e), (self, t1))
              | Inr u \<Rightarrow>
                  let t2 = t1 @ [HandleClose c] in
                  (case handle_close drv t1 c of
                     Inl e \<Rightarrow> (Inl (USBError e), (self, t2))
                   | Inr u \<Rightarrow> (Inr (), (self\<lparr>handle := None\<rparr>, t2))))
         | None \<Rightarrow> (Inr (), (self\<lparr>handle := None\<rparr>, t))))"

text \<open>\<^verbatim>\<open>WebUsbHandle.write_chunk\<close>\<close>

definition write_chunk ::
  "driver \<Rightarrow> bytes \<Rightarrow> WebUsbHandle \<times> event list \<Rightarrow> (exn + unit) \<times> (WebUsbHandle \<times> event list)" where
  "write_chunk drv chunk st =
     (case st of (self, t) \<Rightarrow>
        (case handle self of
           None \<Rightarrow> (Inl AssertionError, (self, t))
         | Some c \<Rightarrow>
             if length chunk \<noteq> 64
             then (Inl (TransportException (''Unexpected chunk size: '' @ str_nat (length chunk))),
                   (self, t))
             else
               let t1 = t @ [InterruptWrite c (endpoint self) chunk] in
               (case interruptWrite drv t c (endpoint self) chunk of
                  Inl e \<Rightarrow> (Inl (USBError e), (self, t1))
                | Inr u \<Rightarrow> (Inr (), (self, t1)))))"

text \<open>
  The loop of \<^verbatim>\<open>WebUsbHandle.read_chunk\<close>: one read of at most 64 bytes; an empty
  answer sleeps and reads again. The loop has no bound, so it is a partial function:
  \<open>None\<close> is the loop that never ends.
\<close>

partial_function (option) read_loop ::
  "driver \<Rightarrow> conn \<Rightarrow> nat \<Rightarrow> event list \<Rightarrow> ((exn + bytes) \<times> event list) option" where
  "read_loop drv c ep t =
     (case interruptRead drv t c ep 64 of
        Inl e \<Rightarrow> Some (Inl (USBError e), t @ [InterruptRead c ep 64])
      | Inr chunk \<Rightarrow>
          if chunk \<noteq> [] then Some (Inr chunk, t @ [InterruptRead c ep 64])
          else read_loop drv c ep (t @ [InterruptRead c ep 64, Sleep]))"

text \<open>\<^verbatim>\<open>WebUsbHandle.read_chunk\<close>\<close>

definition read_chunk ::
  "driver \<Rightarrow> WebUsbHandle \<times> event list \<Rightarrow> ((exn + bytes) \<times> (WebUsbHandle \<times> event list)) option" where
  "read_chunk drv st =
     (case st of (self, t) \<Rightarrow>
        (case handle self of
           None \<Rightarrow> Some (Inl AssertionError, (self, t))
         | Some c \<Rightarrow>
             (case read_loop drv c (0x80 OR endpoint self) t of
                None \<Rightarrow> None
              | Some (Inl e, t1) \<Rightarrow> Some (Inl e, (self, t1))
              | Some (Inr chunk, t1) \<Rightarrow>
                  if length chunk \<noteq> 64
                  then Some (Inl (TransportException
                               (''Unexpected chunk size: '' @ str_nat (length chunk))),
                             (self, t1))
                  else Some (Inr chunk, (self, t1)))))"

text \<open>
  The calls that \<open>n\<close> rounds of the loop add to the trace when every one of them
  reads nothing.
\<close>

primrec retries :: "conn \<Rightarrow> nat \<Rightarrow> nat \<Rightarrow> event list" where
  "retries c ep 0 = []"
| "retries c ep (Suc n) = retries c ep n @ [InterruptRead c ep 64, Sleep]"

subsection \<open>The object store\<close>

text \<open>
  Modelled from the spec: \<^verbatim>\<open>get_protocol\<close> and \<^verbatim>\<open>ProtocolBasedTransport\<close> live in
  \<^verbatim>\<open>trezorlib/transport/protocol.py\<close>, which is not among the sources. The spec says of
  the Framing Protocol that it is constructed from a Chunk Handle plus a boolean
  "is version-2-capable" hint and exposes a read-only integer \<open>VERSION\<close>. The version
  chosen for a handle and a hint is the parameter \<open>pv\<close>.
\<close>

record Protocol =
  protocol_handle :: nat
  VERSION :: int

definition get_protocol :: "(nat \<Rightarrow> bool \<Rightarrow> int) \<Rightarrow> nat \<Rightarrow> bool \<Rightarrow> Protocol" where
  "get_protocol pv h want_v2 = \<lparr>protocol_handle = h, VERSION = pv h want_v2\<rparr>"

text \<open>
  A \<^verbatim>\<open>WebUsbTransport\<close> object; its fields \<^verbatim>\<open>device\<close>, \<^verbatim>\<open>handle\<close> and \<^verbatim>\<open>debug\<close> carry the
  prefix \<open>transport_\<close> here. \<open>transport_handle\<close> is a reference: the address of a
  \<^verbatim>\<open>WebUsbHandle\<close> object in the store, so that two transports can hold the same handle
  object.
\<close>

record WebUsbTransport =
  transport_device :: usb_device
  transport_handle :: nat
  transport_debug :: bool
  protocol :: Protocol

datatype pyobj = HandleObj WebUsbHandle | TransportObj WebUsbTransport

text \<open>
  The state of the interpreter that the transport sees: the objects (the address of an
  object is its index in \<open>heap\<close>), whether the class attribute
  \<^verbatim>\<open>WebUsbTransport.context\<close> is set, and the calls made so far.
\<close>

record world =
  heap :: "pyobj list"
  cls_context :: bool
  trace :: "event list"

definition alloc :: "pyobj \<Rightarrow> world \<Rightarrow> nat \<times> world" where
  "alloc ob w = (length (heap w), w\<lparr>heap := heap w @ [ob]\<rparr>)"

subsection \<open>Device matching and the path\<close>

definition is_trezor1 :: "usb_device \<Rightarrow> bool" where
  "is_trezor1 dev = ((getVendorID dev, getProductID dev) = DEV_TREZOR1)"

definition is_trezor2 :: "usb_device \<Rightarrow> bool" where
  "is_trezor2 dev = ((getVendorID dev, getProductID dev) = DEV_TREZOR2)"

definition is_trezor2_bl :: "usb_device \<Rightarrow> bool" where
  "is_trezor2_bl dev = ((getVendorID dev, getProductID dev) = DEV_TREZOR2_BL)"

text \<open>\<^verbatim>\<open>xs[i]\<close> for \<open>i \<ge> 0\<close>: an index out of range raises.\<close>

definition getitem :: "'a list \<Rightarrow> nat \<Rightarrow> exn + 'a" where
  "getitem xs i = (if i < length xs then Inr (xs ! i) else Inl IndexError)"

definition is_vendor_class :: "usb_device \<Rightarrow> exn + bool" where
  "is_vendor_class dev =
     (let configurationId = 0; altSettingId = 0 in
      case getitem (configurations dev) configurationId of
        Inl e \<Rightarrow> Inl e
      | Inr cfg \<Rightarrow>
          (case getitem cfg INTERFACE of
             Inl e \<Rightarrow> Inl e
           | Inr ifc \<Rightarrow>
               (case getitem ifc altSettingId of
                  Inl e \<Rightarrow> Inl e
                | Inr cls \<Rightarrow> Inr (cls = LIBUSB_CLASS_VENDOR_SPEC))))"

text \<open>The elements of the list that \<^verbatim>\<open>dev_to_str\<close> joins: one string, then ints.\<close>

datatype pyval = PyStr string | PyInt nat

fun py_str :: "pyval \<Rightarrow> string" where
  "py_str (PyStr s) = s"
| "py_str (PyInt n) = str_nat n"

definition dev_to_str :: "usb_device \<Rightarrow> string" where
  "dev_to_str dev =
     join '':'' (map py_str ([PyStr (fmt_03i (getBusNumber dev))] @ map PyInt (getPortNumberList dev)))"

definition PATH_PREFIX :: string where
  "PATH_PREFIX = ''webusb''"

definition WebUsbTransport_get_path :: "WebUsbTransport \<Rightarrow> string" where
  "WebUsbTransport_get_path self = PATH_PREFIX @ '':'' @ dev_to_str (transport_device self)"

subsection \<open>WebUsbTransport\<close>

text \<open>
  \<^verbatim>\<open>WebUsbTransport.__init__\<close> together with the allocation of the new object; the result
  is the address of the new transport. \<open>h\<close> is the \<^verbatim>\<open>handle\<close> argument, \<open>None\<close> by default.
\<close>

definition WebUsbTransport_init ::
  "(nat \<Rightarrow> bool \<Rightarrow> int) \<Rightarrow> usb_device \<Rightarrow> nat option \<Rightarrow> bool \<Rightarrow> world \<Rightarrow> nat \<times> world" where
  "WebUsbTransport_init pv dev h debug w =
     (case (case h of
              None \<Rightarrow> alloc (HandleObj (WebUsbHandle_init dev debug)) w
            | Some r \<Rightarrow> (r, w)) of
        (href, w1) \<Rightarrow>
          alloc (TransportObj
                   \<lparr>transport_device = dev,
                    transport_handle = href,
                    transport_debug = debug,
                    protocol = get_protocol pv href (is_trezor2 dev)\<rparr>) w1)"

text \<open>The body of the \<^verbatim>\<open>for\<close> loop of \<^verbatim>\<open>WebUsbTransport.enumerate\<close>, over the devices left.\<close>

fun enumerate_loop ::
  "(nat \<Rightarrow> bool \<Rightarrow> int) \<Rightarrow> usb_device list \<Rightarrow> nat list \<Rightarrow> world \<Rightarrow> (exn + nat list) \<times> world" where
  "enumerate_loop pv [] devices w = (Inr devices, w)"
| "enumerate_loop pv (dev # rest) devices w =
     (if \<not> (is_trezor1 dev \<or> is_trezor2 dev \<or> is_trezor2_bl dev)
      then enumerate_loop pv rest devices w
      else
        (case is_vendor_class dev of
           Inl e \<Rightarrow> (Inl e, w)
         | Inr vc \<Rightarrow>
             if \<not> vc then enumerate_loop pv rest devices w
             else
               let w1 = w\<lparr>trace := trace w @ [GetProduct dev]\<rparr> in
               (case getProduct dev of
                  Inl e \<Rightarrow>
                    if e = USBErrorNotSupported then enumerate_loop pv rest devices w1
                    else (Inl (USBError e), w1)
                | Inr p \<Rightarrow>
                    (case WebUsbTransport_init pv dev None False w1 of
                       (r, w2) \<Rightarrow> enumerate_loop pv rest (devices @ [r]) w2))))"

text \<open>
  \<^verbatim>\<open>WebUsbTransport.enumerate\<close>. The context is assigned to the class before it is opened.
  The device iterator (\<^verbatim>\<open>skip_on_error=True\<close>) yields the descriptors the library could
  build; the list is taken when the iteration starts.
\<close>

definition WebUsbTransport_enumerate ::
  "driver \<Rightarrow> (nat \<Rightarrow> bool \<Rightarrow> int) \<Rightarrow> world \<Rightarrow> (exn + nat list) \<times> world" where
  "WebUsbTransport_enumerate drv pv w =
     (case (if \<not> cls_context w
            then
              let w1 = w\<lparr>cls_context := True, trace := trace w @ [ContextCreate, ContextOpen]\<rparr> in
              (case context_open drv (trace w @ [ContextCreate]) of
                 Inl e \<Rightarrow> Inl (USBError e, w1)
               | Inr u \<Rightarrow> Inr (w1\<lparr>trace := trace w1 @ [AtexitRegister]\<rparr>))
            else Inr w) of
        Inl (e, w1) \<Rightarrow> (Inl e, w1)
      | Inr w1 \<Rightarrow>
          let w2 = w1\<lparr>trace := trace w1 @ [GetDeviceIterator]\<rparr> in
          (case getDeviceIterator drv (trace w1) of
             Inl e \<Rightarrow> (Inl (USBError e), w2)
           | Inr devs \<Rightarrow> enumerate_loop pv devs [] w2))"

text \<open>\<^verbatim>\<open>WebUsbTransport.find_debug\<close>; \<open>self\<close> is the receiver's value.\<close>

definition WebUsbTransport_find_debug ::
  "(nat \<Rightarrow> bool \<Rightarrow> int) \<Rightarrow> WebUsbTransport \<Rightarrow> world \<Rightarrow> nat \<times> world" where
  "WebUsbTransport_find_debug pv self w =
     (if VERSION (protocol self) \<ge> 2
      then WebUsbTransport_init pv (transport_device self) (Some (transport_handle self)) False w
      else WebUsbTransport_init pv (transport_device self) None True w)"

subsection \<open>Reading decimal numerals back\<close>

text \<open>The number a string of decimal digits denotes; it is used to say what \<open>str_nat\<close> prints.\<close>

definition nat_of_decimal :: "string \<Rightarrow> nat" where
  "nat_of_decimal s = foldl (\<lambda>acc ch. 10 * acc + (of_char ch - 48)) 0 s"

subsection \<open>The path as the spec words it\<close>

text \<open>
  The spec's format of the path: the prefix \<^verbatim>\<open>webusb\<close>, the bus number as three decimal
  digits, and the decimal port numbers in order, joined by colons.
\<close>

definition three_digits :: "nat \<Rightarrow> string" where
  "three_digits n = [digit_char (n div 100), digit_char (n div 10), digit_char n]"

definition path_format_spec :: "nat \<Rightarrow> nat list \<Rightarrow> string" where
  "path_format_spec bus ports = join '':'' ([''webusb'', three_digits bus] @ map str_nat ports)"

subsection \<open>What a scan keeps\<close>

text \<open>
  Names for the three outcomes of one round of the loop of \<^verbatim>\<open>enumerate\<close>: \<open>supported\<close>
  is the loop's test of the vendor and product ID; a \<open>probed\<close> descriptor reaches the
  product-string query; a descriptor that \<open>passes\<close> gets a transport; \<open>fatal\<close> is the
  exception that ends the scan at this descriptor, if any.
\<close>

definition supported :: "usb_device \<Rightarrow> bool" where
  "supported dev = (is_trezor1 dev \<or> is_trezor2 dev \<or> is_trezor2_bl dev)"

definition probed :: "usb_device \<Rightarrow> bool" where
  "probed dev = (supported dev \<and> is_vendor_class dev = Inr True)"

definition passes :: "usb_device \<Rightarrow> bool" where
  "passes dev = (probed dev \<and> (case getProduct dev of Inl e \<Rightarrow> False | Inr p \<Rightarrow> True))"

definition fatal :: "usb_device \<Rightarrow> exn option" where
  "fatal dev =
     (if \<not> supported dev then None
      else
        (case is_vendor_class dev of
           Inl e \<Rightarrow> Some e
         | Inr vc \<Rightarrow>
             if \<not> vc then None
             else
               (case getProduct dev of
                  Inl e \<Rightarrow> if e = USBErrorNotSupported then None else Some (USBError e)
                | Inr p \<Rightarrow> None)))"

text \<open>
  The objects that the constructor calls of a scan add to the store, for the
  descriptors kept, and the addresses of the transports among them.
\<close>

fun new_objects :: "(nat \<Rightarrow> bool \<Rightarrow> int) \<Rightarrow> nat \<Rightarrow> usb_device list \<Rightarrow> pyobj list" where
  "new_objects pv base [] = []"
| "new_objects pv base (dev # devs) =
     [HandleObj (WebUsbHandle_init dev False),
      TransportObj \<lparr>transport_device = dev, transport_handle = base, transport_debug = False,
                    protocol = get_protocol pv base (is_trezor2 dev)\<rparr>] @
     new_objects pv (base + 2) devs"

fun new_refs :: "nat \<Rightarrow> usb_device list \<Rightarrow> nat list" where
  "new_refs base [] = []"
| "new_refs base (dev # devs) = (base + 1) # new_refs (base + 2) devs"

text \<open>The trace at the moment the device list is asked for.\<close>

definition scan_trace :: "world \<Rightarrow> event list" where
  "scan_trace w =
     trace w @ (if cls_context w then [] else [ContextCreate, ContextOpen, AtexitRegister])"

text \<open>The descriptor of the transport at an address of the store.\<close>

definition device_at :: "pyobj list \<Rightarrow> nat \<Rightarrow> usb_device option" where
  "device_at h r =
     (if r < length h
      then (case h ! r of HandleObj x \<Rightarrow> None | TransportObj x \<Rightarrow> Some (transport_device x))
      else None)"

subsection \<open>A simulated driver\<close>

text \<open>
  A descriptor on bus 7 behind ports 2 and 1, with one configuration that has one
  interface with one alternate setting of class \<open>cls\<close>.
\<close>

definition sim_device :: "nat \<times> nat \<Rightarrow> nat \<Rightarrow> usb_error + string option \<Rightarrow> usb_device" where
  "sim_device ids cls probe =
     \<lparr>getVendorID = fst ids, getProductID = snd ids, getBusNumber = 7,
      getPortNumberList = [2, 1], configurations = [[[cls]]], getProduct = probe\<rparr>"

text \<open>
  A driver with fixed answers. Its reads return nothing until \<open>empty_reads\<close> sleeps have
  passed and \<open>buf\<close> from then on.
\<close>

definition sim_driver ::
  "(usb_error + conn option) \<Rightarrow> (usb_error + unit) \<Rightarrow> (usb_error + unit) \<Rightarrow> nat \<Rightarrow> bytes \<Rightarrow>
   usb_device list \<Rightarrow> driver" where
  "sim_driver open_answer claim_answer release_answer empty_reads buf devs =
     \<lparr>device_open = (\<lambda>t dev. open_answer),
      claimInterface = (\<lambda>t c i. claim_answer),
      releaseInterface = (\<lambda>t c i. release_answer),
      handle_close = (\<lambda>t c. Inr ()),
      interruptWrite = (\<lambda>t c ep chunk. Inr ()),
      interruptRead = (\<lambda>t c ep n. if count_list t Sleep < empty_reads then Inr [] else Inr buf),
      context_open = (\<lambda>t. Inr ()),
      getDeviceIterator = (\<lambda>t. Inr devs)\<rparr>"

text \<open>A handle as the constructor leaves it, and the same handle holding connection 5.\<close>

definition closed_handle :: WebUsbHandle where
  "closed_handle = WebUsbHandle_init (sim_device DEV_TREZOR1 0xff (Inr None)) False"

definition open_handle :: WebUsbHandle where
  "open_handle = closed_handle\<lparr>handle := Some 5\<rparr>"

text \<open>
  A transport whose protocol has version \<open>v\<close>, and a store that holds it and its handle.
\<close>

definition sim_transport :: "int \<Rightarrow> WebUsbTransport" where
  "sim_transport v =
     \<lparr>transport_device = sim_device DEV_TREZOR1 0xff (Inr None), transport_handle = 0,
      transport_debug = False, protocol = \<lparr>protocol_handle = 0, VERSION = v\<rparr>\<rparr>"

definition sim_world :: "int \<Rightarrow> world" where
  "sim_world v =
     \<lparr>heap = [HandleObj open_handle, TransportObj (sim_transport v)], cls_context = True,
      trace = []\<rparr>"

text \<open>
  Two device lists: a Trezor T of vendor class, a Trezor One whose first interface is
  of class 3 (HID) and a foreign device; and a Trezor T listed twice, the first entry
  refusing the product-string query.
\<close>

definition scan_devices :: "usb_device list" where
  "scan_devices =
     [sim_device DEV_TREZOR2 0xff (Inr (Some ''TREZOR'')),
      sim_device DEV_TREZOR1 3 (Inr None),
      sim_device (0x1234, 0x5678) 0xff (Inr None)]"

definition empty_world :: world where
  "empty_world = \<lparr>heap = [], cls_context = False, trace = []\<rparr>"

definition ghost_devices :: "usb_device list" where
  "ghost_devices =
     [sim_device DEV_TREZOR2 0xff (Inl USBErrorNotSupported),
      sim_device DEV_TREZOR2 0xff (Inr (Some ''TREZOR''))]"

section \<open>Properties\<close>

subsection \<open>Decimal numerals\<close>

lemma digit_char_value: "d < 10 \<Longrightarrow> (of_char (digit_char d) :: nat) = 48 + d"
proof -
  assume "d < 10"
  then consider "d = 0" | "d = 1" | "d = 2" | "d = 3" | "d = 4" | "d = 5" | "d = 6" | "d = 7"
    | "d = 8" | "d = 9"
    by atomize_elim arith
  then show ?thesis
    by cases (simp_all add: digit_char_def)
qed

lemma nat_of_decimal_str_nat: "nat_of_decimal (str_nat n) = n"
proof (induction n rule: str_nat.induct)
  case (1 n)
  show ?case
  proof (cases "n < 10")
    case True
    then show ?thesis
      by (subst str_nat.simps) (simp add: nat_of_decimal_def digit_char_value)
  next
    case False
    have "nat_of_decimal (str_nat n) = 10 * nat_of_decimal (str_nat (n div 10)) + n mod 10"
      using False by (subst str_nat.simps) (simp add: nat_of_decimal_def digit_char_value)
    then show ?thesis
      using 1 False by simp
  qed
qed

lemma sim_handles:
  "handle closed_handle = None" "handle open_handle = Some 5"
  "interface closed_handle = 0" "interface open_handle = 0"
  "endpoint closed_handle = 1" "endpoint open_handle = 1"
  by (simp_all add: open_handle_def closed_handle_def WebUsbHandle_init_def
        INTERFACE_def ENDPOINT_def)

subsection \<open>write_chunk\<close>

text \<open>
  C1. On an open handle, a chunk whose length is not 64 makes \<open>write_chunk\<close> raise the
  \<open>TransportException\<close> whose message is \<^verbatim>\<open>Unexpected chunk size: \<close> followed by the
  decimal numeral of the actual length. A chunk of 64 bytes makes it perform exactly
  one interrupt write, of that chunk, to the handle's endpoint on the handle's
  connection; the outcome of \<open>write_chunk\<close> is the outcome of that write, so it succeeds
  whenever the driver accepts the write.
\<close>

theorem write_chunk_checks_size:
  assumes "handle self = Some c"
  shows "(length chunk \<noteq> 64 \<longrightarrow>
            fst (write_chunk drv chunk (self, t)) =
              Inl (TransportException (''Unexpected chunk size: '' @ str_nat (length chunk))) \<and>
            nat_of_decimal (str_nat (length chunk)) = length chunk) \<and>
         (length chunk = 64 \<longrightarrow>
            snd (write_chunk drv chunk (self, t)) =
              (self, t @ [InterruptWrite c (endpoint self) chunk]) \<and>
            fst (write_chunk drv chunk (self, t)) =
              (case interruptWrite drv t c (endpoint self) chunk of
                 Inl e \<Rightarrow> Inl (USBError e) | Inr u \<Rightarrow> Inr ()) \<and>
            (interruptWrite drv t c (endpoint self) chunk = Inr () \<longrightarrow>
               write_chunk drv chunk (self, t) =
                 (Inr (), (self, t @ [InterruptWrite c (endpoint self) chunk]))))"
  using assms
  by (simp add: write_chunk_def Let_def nat_of_decimal_str_nat split: sum.splits)

theorem write_chunk_checks_size_witness:
  "fst (write_chunk (sim_driver (Inr None) (Inr ()) (Inr ()) 0 [] []) (replicate 65 0)
          (open_handle, [])) =
     Inl (TransportException ''Unexpected chunk size: 65'') \<and>
   write_chunk (sim_driver (Inr None) (Inr ()) (Inr ()) 0 [] []) (replicate 64 0)
     (open_handle, []) =
     (Inr (), (open_handle, [InterruptWrite 5 1 (replicate 64 0)]))"
proof -
  have s: "str_nat 65 = ''65''"
    by (simp add: str_nat.simps digit_char_def)
  show ?thesis
    using
      write_chunk_checks_size [OF sim_handles(2), of "replicate 65 0"
        "sim_driver (Inr None) (Inr ()) (Inr ()) 0 [] []" "[]"]
      write_chunk_checks_size [OF sim_handles(2), of "replicate 64 0"
        "sim_driver (Inr None) (Inr ()) (Inr ()) 0 [] []" "[]"]
    by (simp add: sim_handles s sim_driver_def)
qed

text \<open>
  C10. The length is checked before the bus is touched: for a chunk whose length is not
  64, \<open>write_chunk\<close> leaves the handle and the trace of driver calls as they were, so no
  interrupt write is performed, and on an open handle the outcome is a
  \<open>TransportException\<close>.
\<close>

theorem write_chunk_rejected_no_effect:
  assumes "length chunk \<noteq> 64"
  shows "snd (write_chunk drv chunk (self, t)) = (self, t) \<and>
         (\<forall>c. handle self = Some c \<longrightarrow>
            (\<exists>msg. fst (write_chunk drv chunk (self, t)) = Inl (TransportException msg)))"
  using assms by (simp add: write_chunk_def split: option.splits)

theorem write_chunk_rejected_no_effect_witness:
  "snd (write_chunk (sim_driver (Inr None) (Inr ()) (Inr ()) 0 [] []) (replicate 63 0)
          (open_handle, [])) = (open_handle, []) \<and>
   (\<exists>msg. fst (write_chunk (sim_driver (Inr None) (Inr ()) (Inr ()) 0 [] []) (replicate 63 0)
                  (open_handle, [])) = Inl (TransportException msg))"
proof -
  have l: "length (replicate 63 (0::8 word)) \<noteq> 64" by simp
  show ?thesis
    using write_chunk_rejected_no_effect [OF l,
        of "sim_driver (Inr None) (Inr ()) (Inr ()) 0 [] []" open_handle "[]"]
      sim_handles(2)
    by simp
qed

subsection \<open>open and close\<close>

text \<open>
  C2, as stated, fails: the connection is stored in the handle before the interface is
  claimed, so a handle that was closed is open after an \<open>open\<close> whose claim raised.
\<close>

theorem open_claim_failure_counterexample:
  "handle closed_handle = None \<and>
   fst (WebUsbHandle_open (sim_driver (Inr (Some 5)) (Inl USBErrorBusy) (Inr ()) 0 [] [])
          ''linux'' (closed_handle, [])) = Inl (USBError USBErrorBusy) \<and>
   handle (fst (snd (WebUsbHandle_open
          (sim_driver (Inr (Some 5)) (Inl USBErrorBusy) (Inr ()) 0 [] [])
          ''linux'' (closed_handle, [])))) = Some 5"
  by (simp add: WebUsbHandle_open_def sim_driver_def closed_handle_def WebUsbHandle_init_def
        Let_def)

text \<open>
  C2, amended. On a closed handle: if the device open raises, the error propagates
  and the handle is unchanged, so still closed. If the device open returns no handle,
  \<open>open\<close> raises the \<open>IOError\<close> with the arguments \<^verbatim>\<open>Cannot open device\<close> and, when
  \<^verbatim>\<open>sys.platform\<close> starts with \<^verbatim>\<open>linux\<close>, the udev hint, and with the first argument
  alone elsewhere, and the handle stays closed. If the device open returns a
  connection, the handle holds it, so it is open, whether the claim of the handle's
  interface then succeeds or raises; the outcome of \<open>open\<close> is the outcome of the claim.
  Whenever \<open>open\<close> succeeds the handle is open.
\<close>

theorem open_state:
  assumes "handle self = None"
  shows "(\<forall>e. device_open drv t (device self) = Inl e \<longrightarrow>
            WebUsbHandle_open drv platform (self, t) =
              (Inl (USBError e), (self, t @ [DeviceOpen (device self)]))) \<and>
         (device_open drv t (device self) = Inr None \<longrightarrow>
            WebUsbHandle_open drv platform (self, t) =
              (Inl (IOError (if startswith platform ''linux''
                             then [''Cannot open device'', udev_hint]
                             else [''Cannot open device''])),
               (self, t @ [DeviceOpen (device self)]))) \<and>
         (\<forall>c. device_open drv t (device self) = Inr (Some c) \<longrightarrow>
            snd (WebUsbHandle_open drv platform (self, t)) =
              (self\<lparr>handle := Some c\<rparr>,
               t @ [DeviceOpen (device self), ClaimInterface c (interface self)]) \<and>
            fst (WebUsbHandle_open drv platform (self, t)) =
              (case claimInterface drv (t @ [DeviceOpen (device self)]) c (interface self) of
                 Inl e \<Rightarrow> Inl (USBError e) | Inr u \<Rightarrow> Inr ())) \<and>
         (fst (WebUsbHandle_open drv platform (self, t)) = Inr () \<longrightarrow>
            handle (fst (snd (WebUsbHandle_open drv platform (self, t)))) \<noteq> None)"
  using assms
  by (cases "device_open drv t (device self)")
     (auto simp add: WebUsbHandle_open_def Let_def split: sum.splits option.splits)

theorem open_state_witness:
  "WebUsbHandle_open (sim_driver (Inr None) (Inr ()) (Inr ()) 0 [] []) ''linux2''
     (closed_handle, []) =
     (Inl (IOError [''Cannot open device'', udev_hint]),
      (closed_handle, [DeviceOpen (device closed_handle)])) \<and>
   WebUsbHandle_open (sim_driver (Inr None) (Inr ()) (Inr ()) 0 [] []) ''win32''
     (closed_handle, []) =
     (Inl (IOError [''Cannot open device'']),
      (closed_handle, [DeviceOpen (device closed_handle)])) \<and>
   WebUsbHandle_open (sim_driver (Inr (Some 5)) (Inr ()) (Inr ()) 0 [] []) ''linux''
     (closed_handle, []) =
     (Inr (), (open_handle, [DeviceOpen (device closed_handle), ClaimInterface 5 0]))"
proof -
  have a: "device_open (sim_driver (Inr None) (Inr ()) (Inr ()) 0 [] []) []
             (device closed_handle) = Inr None"
    by (simp add: sim_driver_def)
  have b: "device_open (sim_driver (Inr (Some 5)) (Inr ()) (Inr ()) 0 [] []) []
             (device closed_handle) = Inr (Some 5)"
    by (simp add: sim_driver_def)
  have c: "claimInterface (sim_driver (Inr (Some 5)) (Inr ()) (Inr ()) 0 [] [])
             [DeviceOpen (device closed_handle)] 5 0 = Inr ()"
    by (simp add: sim_driver_def)
  have l: "startswith ''linux2'' ''linux''" "\<not> startswith ''win32'' ''linux''"
    by (simp_all add: startswith_def)
  show ?thesis
    using
      open_state [OF sim_handles(1), of "sim_driver (Inr None) (Inr ()) (Inr ()) 0 [] []"
        "[]" "''linux2''"]
      open_state [OF sim_handles(1), of "sim_driver (Inr None) (Inr ()) (Inr ()) 0 [] []"
        "[]" "''win32''"]
      open_state [OF sim_handles(1), of "sim_driver (Inr (Some 5)) (Inr ()) (Inr ()) 0 [] []"
        "[]" "''linux''"]
    by (simp add: a b c sim_handles l open_handle_def prod_eq_iff)
qed

text \<open>
  C5, as stated, fails: \<open>close\<close> does not catch what the driver raises. When the release
  of the interface raises (the device was unplugged, say), \<open>close\<close> raises and the handle
  stays open.
\<close>

theorem close_raises_counterexample:
  "handle open_handle = Some 5 \<and>
   fst (WebUsbHandle_close (sim_driver (Inr None) (Inr ()) (Inl USBErrorNoDevice) 0 [] [])
          (open_handle, [])) = Inl (USBError USBErrorNoDevice) \<and>
   handle (fst (snd (WebUsbHandle_close
          (sim_driver (Inr None) (Inr ()) (Inl USBErrorNoDevice) 0 [] [])
          (open_handle, [])))) = Some 5"
  by (simp add: WebUsbHandle_close_def sim_driver_def open_handle_def Let_def)

text \<open>
  C5, amended. On a closed handle \<open>close\<close> is a no-op and never raises. On an open
  handle it releases the handle's interface and then closes the connection, and when
  both driver calls return it leaves the handle closed. After a \<open>close\<close> that returned,
  the handle is closed and a second \<open>close\<close> returns without a driver call and changes
  nothing. When the release of the interface raises, \<open>close\<close> raises that very error
  without closing the connection, and when the release returns and the closing of the
  connection raises, \<open>close\<close> raises that very error; in both cases the handle stays
  open, holding its connection. \<open>close\<close> raises only what the driver raised, only on an
  open handle, and then the handle is left as it was.
\<close>

theorem close_idempotent:
  "(handle self = None \<longrightarrow> WebUsbHandle_close drv (self, t) = (Inr (), (self, t))) \<and>
   (\<forall>c. handle self = Some c \<and>
        releaseInterface drv t c (interface self) = Inr () \<and>
        handle_close drv (t @ [ReleaseInterface c (interface self)]) c = Inr () \<longrightarrow>
        WebUsbHandle_close drv (self, t) =
          (Inr (), (self\<lparr>handle := None\<rparr>,
                    t @ [ReleaseInterface c (interface self), HandleClose c]))) \<and>
   (fst (WebUsbHandle_close drv (self, t)) = Inr () \<longrightarrow>
      handle (fst (snd (WebUsbHandle_close drv (self, t)))) = None \<and>
      WebUsbHandle_close drv (snd (WebUsbHandle_close drv (self, t))) =
        (Inr (), snd (WebUsbHandle_close drv (self, t)))) \<and>
   (\<forall>e. fst (WebUsbHandle_close drv (self, t)) = Inl e \<longrightarrow>
      (\<exists>u. e = USBError u) \<and> handle self \<noteq> None \<and>
      fst (snd (WebUsbHandle_close drv (self, t))) = self) \<and>
   (\<forall>c e. handle self = Some c \<and>
        releaseInterface drv t c (interface self) = Inl e \<longrightarrow>
        WebUsbHandle_close drv (self, t) =
          (Inl (USBError e), (self, t @ [ReleaseInterface c (interface self)]))) \<and>
   (\<forall>c e. handle self = Some c \<and>
        releaseInterface drv t c (interface self) = Inr () \<and>
        handle_close drv (t @ [ReleaseInterface c (interface self)]) c = Inl e \<longrightarrow>
        WebUsbHandle_close drv (self, t) =
          (Inl (USBError e),
           (self, t @ [ReleaseInterface c (interface self), HandleClose c])))"
  by (auto simp add: WebUsbHandle_close_def Let_def split: option.splits sum.splits)

theorem close_idempotent_witness:
  "WebUsbHandle_close (sim_driver (Inr None) (Inr ()) (Inr ()) 0 [] []) (open_handle, []) =
     (Inr (), (closed_handle, [ReleaseInterface 5 0, HandleClose 5])) \<and>
   WebUsbHandle_close (sim_driver (Inr None) (Inr ()) (Inr ()) 0 [] [])
     (closed_handle, [ReleaseInterface 5 0, HandleClose 5]) =
     (Inr (), (closed_handle, [ReleaseInterface 5 0, HandleClose 5])) \<and>
   WebUsbHandle_close (sim_driver (Inr None) (Inr ()) (Inl USBErrorNotFound) 0 [] [])
     (open_handle, []) =
     (Inl (USBError USBErrorNotFound), (open_handle, [ReleaseInterface 5 0])) \<and>
   WebUsbHandle_close
     ((sim_driver (Inr None) (Inr ()) (Inr ()) 0 [] [])\<lparr>handle_close := \<lambda>t c. Inl USBErrorIO\<rparr>)
     (open_handle, []) =
     (Inl (USBError USBErrorIO), (open_handle, [ReleaseInterface 5 0, HandleClose 5]))"
proof -
  have c: "open_handle\<lparr>handle := None\<rparr> = closed_handle"
    by (simp add: open_handle_def closed_handle_def WebUsbHandle_init_def)
  show ?thesis
    using
      close_idempotent [of open_handle "sim_driver (Inr None) (Inr ()) (Inr ()) 0 [] []" "[]"]
      close_idempotent [of closed_handle "sim_driver (Inr None) (Inr ()) (Inr ()) 0 [] []"
        "[ReleaseInterface 5 0, HandleClose 5]"]
      close_idempotent [of open_handle
        "sim_driver (Inr None) (Inr ()) (Inl USBErrorNotFound) 0 [] []" "[]"]
      close_idempotent [of open_handle
        "(sim_driver (Inr None) (Inr ()) (Inr ()) 0 [] [])\<lparr>handle_close := \<lambda>t c. Inl USBErrorIO\<rparr>"
        "[]"]
    by (simp add: sim_handles c sim_driver_def)
qed

subsection \<open>read_chunk\<close>

lemma retries_front: "[InterruptRead c ep 64, Sleep] @ retries c ep n = retries c ep (Suc n)"
  by (induction n) simp_all

lemma count_sleep_retries: "count_list (retries c ep n) Sleep = n"
  by (induction n) simp_all

lemma read_loop_skip:
  "(\<And>k. k < n \<Longrightarrow> interruptRead drv (t @ retries c ep k) c ep 64 = Inr []) \<Longrightarrow>
   read_loop drv c ep t = read_loop drv c ep (t @ retries c ep n)"
proof (induction n)
  case 0
  then show ?case by simp
next
  case (Suc n)
  have empty: "interruptRead drv (t @ retries c ep n) c ep 64 = Inr []"
    using Suc.prems by simp
  have "read_loop drv c ep t = read_loop drv c ep (t @ retries c ep n)"
    using Suc.IH Suc.prems by simp
  also have "\<dots> = read_loop drv c ep ((t @ retries c ep n) @ [InterruptRead c ep 64, Sleep])"
    by (subst read_loop.simps) (simp add: empty)
  finally show ?case by simp
qed

lemma read_loop_Some_answer:
  assumes "read_loop drv c ep t = Some y"
  shows "\<exists>n. interruptRead drv (t @ retries c ep n) c ep 64 \<noteq> Inr []"
proof (rule read_loop.raw_induct
    [where P = "\<lambda>drv c ep t y. \<exists>n. interruptRead drv (t @ retries c ep n) c ep 64 \<noteq> Inr []",
     OF _ assms])
  fix f :: "driver \<Rightarrow> conn \<Rightarrow> nat \<Rightarrow> event list \<Rightarrow> ((exn + bytes) \<times> event list) option"
  fix drv c ep t y
  assume IH: "\<And>drv c ep t y. f drv c ep t = Some y \<Longrightarrow>
                \<exists>n. interruptRead drv (t @ retries c ep n) c ep 64 \<noteq> Inr []"
  assume step: "(case interruptRead drv t c ep 64 of
        Inl e \<Rightarrow> Some (Inl (USBError e), t @ [InterruptRead c ep 64])
      | Inr chunk \<Rightarrow>
          if chunk \<noteq> [] then Some (Inr chunk, t @ [InterruptRead c ep 64])
          else f drv c ep (t @ [InterruptRead c ep 64, Sleep])) = Some y"
  show "\<exists>n. interruptRead drv (t @ retries c ep n) c ep 64 \<noteq> Inr []"
  proof (cases "interruptRead drv t c ep 64 = Inr []")
    case True
    then have "f drv c ep (t @ [InterruptRead c ep 64, Sleep]) = Some y"
      using step by simp
    then obtain n where
      "interruptRead drv ((t @ [InterruptRead c ep 64, Sleep]) @ retries c ep n) c ep 64 \<noteq> Inr []"
      using IH by blast
    then have "interruptRead drv (t @ retries c ep (Suc n)) c ep 64 \<noteq> Inr []"
      using retries_front [of c ep n] by (simp del: retries.simps)
    then show ?thesis by blast
  next
    case False
    then have "interruptRead drv (t @ retries c ep 0) c ep 64 \<noteq> Inr []" by simp
    then show ?thesis by blast
  qed
qed

lemma read_loop_stop:
  assumes "interruptRead drv t c ep 64 \<noteq> Inr []"
  shows "read_loop drv c ep t =
     Some (case interruptRead drv t c ep 64 of Inl e \<Rightarrow> Inl (USBError e) | Inr chunk \<Rightarrow> Inr chunk,
           t @ [InterruptRead c ep 64])"
  using assms by (subst read_loop.simps) (simp split: sum.splits)

lemma read_loop_None_iff:
  "read_loop drv c ep t = None \<longleftrightarrow> (\<forall>n. interruptRead drv (t @ retries c ep n) c ep 64 = Inr [])"
proof
  assume "read_loop drv c ep t = None"
  show "\<forall>n. interruptRead drv (t @ retries c ep n) c ep 64 = Inr []"
  proof (rule ccontr)
    assume "\<not> (\<forall>n. interruptRead drv (t @ retries c ep n) c ep 64 = Inr [])"
    then have ex: "\<exists>n. interruptRead drv (t @ retries c ep n) c ep 64 \<noteq> Inr []" by simp
    define m where "m = (LEAST n. interruptRead drv (t @ retries c ep n) c ep 64 \<noteq> Inr [])"
    have stop: "interruptRead drv (t @ retries c ep m) c ep 64 \<noteq> Inr []"
      unfolding m_def using ex by (rule LeastI_ex)
    have before: "\<And>k. k < m \<Longrightarrow> interruptRead drv (t @ retries c ep k) c ep 64 = Inr []"
      unfolding m_def using not_less_Least by blast
    have "read_loop drv c ep t = read_loop drv c ep (t @ retries c ep m)"
      using before by (rule read_loop_skip)
    also have "\<dots> \<noteq> None"
      using read_loop_stop [OF stop] by simp
    finally show False
      using \<open>read_loop drv c ep t = None\<close> by simp
  qed
next
  assume "\<forall>n. interruptRead drv (t @ retries c ep n) c ep 64 = Inr []"
  then show "read_loop drv c ep t = None"
    using read_loop_Some_answer [of drv c ep t] by (cases "read_loop drv c ep t") auto
qed

lemma sim_read:
  "interruptRead (sim_driver oa ca ra m buf devs) (retries c ep k) c' ep' n =
     (if k < m then Inr [] else Inr buf)"
  by (simp add: sim_driver_def count_sleep_retries)

lemma sim_read_empty:
  "\<forall>k<m. interruptRead (sim_driver oa ca ra m buf devs) ([] @ retries c ep k) c ep 64 = Inr []"
  by (simp add: sim_read)

lemma sim_read_buf:
  "interruptRead (sim_driver oa ca ra m buf devs) ([] @ retries c ep m) c ep 64 = Inr buf"
  by (simp add: sim_read)

text \<open>
  C3. On an open handle, with \<open>ep\<close> the handle's endpoint with the direction bit 0x80
  set: when the first \<open>n\<close> reads of the loop return nothing and the next returns the
  non-empty buffer \<open>buf\<close>, \<open>read_chunk\<close> returns; it returns \<open>buf\<close> when \<open>buf\<close> has 64
  bytes, and otherwise raises the \<open>TransportException\<close> whose message is
  \<^verbatim>\<open>Unexpected chunk size: \<close> followed by the decimal numeral of the length of \<open>buf\<close>.
  On the way it has made \<open>n + 1\<close> reads on \<open>ep\<close> and slept \<open>n\<close> times.
\<close>

theorem read_chunk_retries:
  assumes "handle self = Some c" and "ep = 0x80 OR endpoint self"
    and "\<forall>k<n. interruptRead drv (t @ retries c ep k) c ep 64 = Inr []"
    and "interruptRead drv (t @ retries c ep n) c ep 64 = Inr buf"
    and "buf \<noteq> []"
  shows "read_chunk drv (self, t) =
           Some (if length buf = 64 then Inr buf
                 else Inl (TransportException (''Unexpected chunk size: '' @ str_nat (length buf))),
                 (self, t @ retries c ep n @ [InterruptRead c ep 64])) \<and>
         count_list (retries c ep n) Sleep = n \<and>
         nat_of_decimal (str_nat (length buf)) = length buf"
proof -
  have "read_loop drv c ep t = read_loop drv c ep (t @ retries c ep n)"
    using assms(3) by (intro read_loop_skip) simp
  also have "\<dots> = Some (Inr buf, (t @ retries c ep n) @ [InterruptRead c ep 64])"
    using read_loop_stop [of drv "t @ retries c ep n" c ep] assms(4,5) by simp
  finally have "read_loop drv c (0x80 OR endpoint self) t =
      Some (Inr buf, t @ retries c ep n @ [InterruptRead c ep 64])"
    using assms(2) by simp
  then show ?thesis
    using assms(1) by (simp add: read_chunk_def count_sleep_retries nat_of_decimal_str_nat)
qed

theorem read_chunk_retries_witness:
  "read_chunk (sim_driver (Inr None) (Inr ()) (Inr ()) 2 (replicate 64 7) []) (open_handle, []) =
     Some (Inr (replicate 64 7),
           (open_handle, [InterruptRead 5 129 64, Sleep, InterruptRead 5 129 64, Sleep,
                          InterruptRead 5 129 64])) \<and>
   read_chunk (sim_driver (Inr None) (Inr ()) (Inr ()) 1 (replicate 63 7) []) (open_handle, []) =
     Some (Inl (TransportException ''Unexpected chunk size: 63''),
           (open_handle, [InterruptRead 5 129 64, Sleep, InterruptRead 5 129 64]))"
proof -
  have ep: "(129::nat) = 0x80 OR endpoint open_handle"
    by (simp add: sim_handles)
  have s: "str_nat 63 = ''63''"
    by (simp add: str_nat.simps digit_char_def)
  have r: "retries 5 129 2 = [InterruptRead 5 129 64, Sleep, InterruptRead 5 129 64, Sleep]"
    "retries 5 129 1 = [InterruptRead 5 129 64, Sleep]"
    by (simp_all add: numeral_2_eq_2)
  have a: "\<forall>k<2. interruptRead (sim_driver (Inr None) (Inr ()) (Inr ()) 2 (replicate 64 7) [])
             ([] @ retries 5 129 k) 5 129 64 = Inr []"
    by (rule sim_read_empty)
  have b: "interruptRead (sim_driver (Inr None) (Inr ()) (Inr ()) 2 (replicate 64 7) [])
             ([] @ retries 5 129 2) 5 129 64 = Inr (replicate 64 7)"
    by (rule sim_read_buf)
  have a': "\<forall>k<1. interruptRead (sim_driver (Inr None) (Inr ()) (Inr ()) 1 (replicate 63 7) [])
             ([] @ retries 5 129 k) 5 129 64 = Inr []"
    by (rule sim_read_empty)
  have b': "interruptRead (sim_driver (Inr None) (Inr ()) (Inr ()) 1 (replicate 63 7) [])
             ([] @ retries 5 129 1) 5 129 64 = Inr (replicate 63 7)"
    by (rule sim_read_buf)
  have n: "replicate 64 (7::8 word) \<noteq> []" "replicate 63 (7::8 word) \<noteq> []"
    by simp_all
  show ?thesis
    using read_chunk_retries [OF sim_handles(2) ep a b n(1)]
      read_chunk_retries [OF sim_handles(2) ep a' b' n(2)]
    by (simp add: r s)
qed

text \<open>
  C4. On an open handle \<open>read_chunk\<close> returns exactly when some read of the loop is
  answered with something other than an empty buffer, the reads before it having
  returned nothing: in particular it returns whenever some read yields a non-empty
  buffer, and when every read returns nothing it never returns (there is no timeout).
\<close>

theorem read_chunk_terminates_iff:
  assumes "handle self = Some c" and "ep = 0x80 OR endpoint self"
  shows "((\<exists>y. read_chunk drv (self, t) = Some y) \<longleftrightarrow>
            (\<exists>n. interruptRead drv (t @ retries c ep n) c ep 64 \<noteq> Inr [])) \<and>
         ((\<exists>n buf. interruptRead drv (t @ retries c ep n) c ep 64 = Inr buf \<and> buf \<noteq> []) \<longrightarrow>
            (\<exists>y. read_chunk drv (self, t) = Some y)) \<and>
         ((\<forall>n. interruptRead drv (t @ retries c ep n) c ep 64 = Inr []) \<longrightarrow>
            read_chunk drv (self, t) = None)"
proof -
  have iff: "(\<exists>y. read_chunk drv (self, t) = Some y) \<longleftrightarrow> read_loop drv c ep t \<noteq> None"
    using assms by (auto simp add: read_chunk_def split: option.splits sum.splits prod.splits)
  have 1: "(\<exists>y. read_chunk drv (self, t) = Some y) \<longleftrightarrow>
            (\<exists>n. interruptRead drv (t @ retries c ep n) c ep 64 \<noteq> Inr [])"
    unfolding iff read_loop_None_iff by simp
  have 2: "(\<exists>n buf. interruptRead drv (t @ retries c ep n) c ep 64 = Inr buf \<and> buf \<noteq> []) \<longrightarrow>
            (\<exists>y. read_chunk drv (self, t) = Some y)"
  proof
    assume "\<exists>n buf. interruptRead drv (t @ retries c ep n) c ep 64 = Inr buf \<and> buf \<noteq> []"
    then obtain n buf where "interruptRead drv (t @ retries c ep n) c ep 64 = Inr buf" "buf \<noteq> []"
      by blast
    then have "interruptRead drv (t @ retries c ep n) c ep 64 \<noteq> Inr []"
      by simp
    then show "\<exists>y. read_chunk drv (self, t) = Some y"
      unfolding 1 by blast
  qed
  have 3: "(\<forall>n. interruptRead drv (t @ retries c ep n) c ep 64 = Inr []) \<longrightarrow>
            read_chunk drv (self, t) = None"
    using 1 by (cases "read_chunk drv (self, t)") auto
  show ?thesis
    using 1 2 3 by blast
qed

theorem read_chunk_terminates_iff_witness:
  "(\<exists>y. read_chunk (sim_driver (Inr None) (Inr ()) (Inr ()) 2 (replicate 64 7) [])
          (open_handle, []) = Some y) \<and>
   read_chunk (sim_driver (Inr None) (Inr ()) (Inr ()) 0 [] []) (open_handle, []) = None"
proof -
  have ep: "(129::nat) = 0x80 OR endpoint open_handle"
    by (simp add: sim_handles)
  have a: "\<exists>n buf. interruptRead (sim_driver (Inr None) (Inr ()) (Inr ()) 2 (replicate 64 7) [])
             ([] @ retries 5 129 n) 5 129 64 = Inr buf \<and> buf \<noteq> []"
    using sim_read_buf [of "Inr None" "Inr ()" "Inr ()" 2 "replicate 64 7" "[]" 5 129]
    by (intro exI [of _ 2] exI [of _ "replicate 64 7"]) simp
  have b: "\<forall>n. interruptRead (sim_driver (Inr None) (Inr ()) (Inr ()) 0 [] [])
             ([] @ retries 5 129 n) 5 129 64 = Inr []"
    by (simp add: sim_read)
  show ?thesis
    using read_chunk_terminates_iff [OF sim_handles(2) ep,
        of "sim_driver (Inr None) (Inr ()) (Inr ()) 2 (replicate 64 7) []" "[]"]
      read_chunk_terminates_iff [OF sim_handles(2) ep,
        of "sim_driver (Inr None) (Inr ()) (Inr ()) 0 [] []" "[]"]
      a b
    by blast
qed

subsection \<open>The path\<close>

lemma digit_char_0: "digit_char 0 = CHR ''0''"
  by (simp add: digit_char_def)

lemma digit_char_mod: "digit_char (n mod 10) = digit_char n"
  by (simp add: digit_char_def)

lemma fmt_03i_three_digits:
  assumes "n < 1000"
  shows "fmt_03i n = three_digits n"
proof -
  consider "n < 10" | "10 \<le> n" "n < 100" | "100 \<le> n"
    by linarith
  then show ?thesis
  proof cases
    case 1
    then have "str_nat n = [digit_char n]"
      by (subst str_nat.simps) simp
    then show ?thesis
      using 1 by (simp add: fmt_03i_def three_digits_def digit_char_0 numeral_2_eq_2)
  next
    case 2
    then have "n div 10 < 10" by simp
    then have "str_nat (n div 10) = [digit_char (n div 10)]"
      by (subst str_nat.simps) simp
    then have "str_nat n = [digit_char (n div 10), digit_char n]"
      using 2 by (subst str_nat.simps) (simp add: digit_char_mod)
    then show ?thesis
      using 2 by (simp add: fmt_03i_def three_digits_def digit_char_0)
  next
    case 3
    have a: "n div 10 div 10 = n div 100"
      by (simp add: div_mult2_eq [symmetric])
    have "n div 100 < 10"
      using assms by simp
    then have "str_nat (n div 100) = [digit_char (n div 100)]"
      by (subst str_nat.simps) simp
    moreover have "\<not> n div 10 < 10"
      using 3 by simp
    ultimately have "str_nat (n div 10) = [digit_char (n div 100), digit_char (n div 10)]"
      by (subst str_nat.simps) (simp add: a digit_char_mod)
    then have "str_nat n = [digit_char (n div 100), digit_char (n div 10), digit_char n]"
      using 3 by (subst str_nat.simps) (simp add: digit_char_mod)
    then show ?thesis
      by (simp add: fmt_03i_def three_digits_def)
  qed
qed

lemma nat_of_decimal_zeros: "nat_of_decimal (replicate k (CHR ''0'') @ s) = nat_of_decimal s"
  by (induction k) (simp_all add: nat_of_decimal_def)

lemma get_path_join:
  "WebUsbTransport_get_path self =
     join '':'' (''webusb'' # fmt_03i (getBusNumber (transport_device self)) #
                 map str_nat (getPortNumberList (transport_device self)))"
  by (simp add: WebUsbTransport_get_path_def PATH_PREFIX_def dev_to_str_def comp_def)

text \<open>
  C8. The path of a transport is the strings \<^verbatim>\<open>webusb\<close>, the bus number printed by
  \<^verbatim>\<open>%03i\<close> and the port numbers printed in decimal, in the descriptor's order, joined
  by colons. The bus part has at least three characters and reads back as the bus
  number, each port part reads back as its port number, and for a bus number below
  1000 (libusb's are below 256) the path is the one of the spec's format, with exactly
  three digits for the bus. The path depends on the descriptor only. Bus 7 with ports
  2 and 1 gives \<^verbatim>\<open>webusb:007:2:1\<close>.
\<close>

theorem get_path_format:
  "WebUsbTransport_get_path self =
     join '':'' ([''webusb'', fmt_03i (getBusNumber (transport_device self))] @
                 map str_nat (getPortNumberList (transport_device self))) \<and>
   3 \<le> length (fmt_03i (getBusNumber (transport_device self))) \<and>
   nat_of_decimal (fmt_03i (getBusNumber (transport_device self))) =
     getBusNumber (transport_device self) \<and>
   map nat_of_decimal (map str_nat (getPortNumberList (transport_device self))) =
     getPortNumberList (transport_device self) \<and>
   (getBusNumber (transport_device self) < 1000 \<longrightarrow>
      WebUsbTransport_get_path self =
        path_format_spec (getBusNumber (transport_device self))
          (getPortNumberList (transport_device self))) \<and>
   (transport_device other = transport_device self \<longrightarrow>
      WebUsbTransport_get_path other = WebUsbTransport_get_path self)"
proof -
  have "3 \<le> length (fmt_03i n)" for n
    by (simp add: fmt_03i_def)
  moreover have "nat_of_decimal (fmt_03i n) = n" for n
    by (simp add: fmt_03i_def nat_of_decimal_zeros nat_of_decimal_str_nat)
  moreover have "map nat_of_decimal (map str_nat ps) = ps" for ps
    by (induction ps) (simp_all add: nat_of_decimal_str_nat)
  ultimately show ?thesis
    by (simp add: get_path_join path_format_spec_def fmt_03i_three_digits)
qed

theorem get_path_format_witness:
  "WebUsbTransport_get_path (sim_transport 1) = ''webusb:007:2:1''"
proof -
  have d: "getBusNumber (transport_device (sim_transport 1)) = 7"
    "getPortNumberList (transport_device (sim_transport 1)) = [2, 1]"
    by (simp_all add: sim_transport_def sim_device_def)
  have s: "str_nat 2 = ''2''" "str_nat (Suc 0) = ''1''"
    by (simp_all add: str_nat.simps digit_char_def)
  have p: "path_format_spec 7 [2, 1] = ''webusb:007:2:1''"
    by (simp add: path_format_spec_def three_digits_def digit_char_def s)
  have "getBusNumber (transport_device (sim_transport 1)) < 1000 \<longrightarrow>
      WebUsbTransport_get_path (sim_transport 1) =
        path_format_spec (getBusNumber (transport_device (sim_transport 1)))
          (getPortNumberList (transport_device (sim_transport 1)))"
    using get_path_format [of "sim_transport 1" "sim_transport 1"] by blast
  then have "WebUsbTransport_get_path (sim_transport 1) = path_format_spec 7 [2, 1]"
    unfolding d by simp
  then show ?thesis
    unfolding p .
qed

subsection \<open>find_debug\<close>

text \<open>
  C9. \<open>find_debug\<close> changes no object of the store (so neither the receiver nor its
  handle), makes no driver call, and returns the address of a new transport over the
  receiver's device. When the receiver's protocol version is at least 2, the new
  transport holds the receiver's handle reference, with the debug flag off, and no
  handle is created. When it is below 2, so when it is 1, a new handle object is
  created, closed and with the debug interface 1 and endpoint 2, at an address
  different from the receiver's handle, and the new transport holds it, with the debug
  flag on.
\<close>

theorem find_debug_handle:
  assumes "transport_handle self < length (heap w)"
    and "fw = WebUsbTransport_find_debug pv self w"
  shows "take (length (heap w)) (heap (snd fw)) = heap w \<and>
         trace (snd fw) = trace w \<and> cls_context (snd fw) = cls_context w \<and>
         length (heap w) \<le> fst fw \<and> fst fw < length (heap (snd fw)) \<and>
         (2 \<le> VERSION (protocol self) \<longrightarrow>
            heap (snd fw) = heap w @
              [TransportObj \<lparr>transport_device = transport_device self,
                 transport_handle = transport_handle self, transport_debug = False,
                 protocol = get_protocol pv (transport_handle self)
                              (is_trezor2 (transport_device self))\<rparr>] \<and>
            fst fw = length (heap w)) \<and>
         (VERSION (protocol self) < 2 \<longrightarrow>
            heap (snd fw) = heap w @
              [HandleObj \<lparr>device = transport_device self, interface = DEBUG_INTERFACE,
                 endpoint = DEBUG_ENDPOINT, count = 0, handle = None\<rparr>,
               TransportObj \<lparr>transport_device = transport_device self,
                 transport_handle = length (heap w), transport_debug = True,
                 protocol = get_protocol pv (length (heap w))
                              (is_trezor2 (transport_device self))\<rparr>] \<and>
            fst fw = length (heap w) + 1 \<and>
            length (heap w) \<noteq> transport_handle self)"
  using assms
  by (simp add: WebUsbTransport_find_debug_def WebUsbTransport_init_def alloc_def
        WebUsbHandle_init_def)

theorem find_debug_handle_witness:
  "WebUsbTransport_find_debug (\<lambda>h v2. 1) (sim_transport 1) (sim_world 1) =
     (3, \<lparr>heap = [HandleObj open_handle, TransportObj (sim_transport 1),
                  HandleObj \<lparr>device = sim_device DEV_TREZOR1 0xff (Inr None), interface = 1,
                    endpoint = 2, count = 0, handle = None\<rparr>,
                  TransportObj \<lparr>transport_device = sim_device DEV_TREZOR1 0xff (Inr None),
                    transport_handle = 2, transport_debug = True,
                    protocol = \<lparr>protocol_handle = 2, VERSION = 1\<rparr>\<rparr>],
          cls_context = True, trace = []\<rparr>) \<and>
   WebUsbTransport_find_debug (\<lambda>h v2. 2) (sim_transport 2) (sim_world 2) =
     (2, \<lparr>heap = [HandleObj open_handle, TransportObj (sim_transport 2),
                  TransportObj \<lparr>transport_device = sim_device DEV_TREZOR1 0xff (Inr None),
                    transport_handle = 0, transport_debug = False,
                    protocol = \<lparr>protocol_handle = 0, VERSION = 2\<rparr>\<rparr>],
          cls_context = True, trace = []\<rparr>)"
proof -
  have h: "transport_handle (sim_transport v) < length (heap (sim_world v))" for v
    by (simp add: sim_transport_def sim_world_def)
  have v: "VERSION (protocol (sim_transport v)) = v" for v
    by (simp add: sim_transport_def)
  have d: "transport_device (sim_transport v) = sim_device DEV_TREZOR1 0xff (Inr None)"
    "transport_handle (sim_transport v) = 0" for v
    by (simp_all add: sim_transport_def)
  have w: "heap (sim_world v) = [HandleObj open_handle, TransportObj (sim_transport v)]"
    "trace (sim_world v) = []" "cls_context (sim_world v)" for v
    by (simp_all add: sim_world_def)
  show ?thesis
    using find_debug_handle [OF h [of 1] refl, of "\<lambda>h v2. 1"]
      find_debug_handle [OF h [of 2] refl, of "\<lambda>h v2. 2"]
    by (simp add: v d w get_protocol_def DEBUG_INTERFACE_def DEBUG_ENDPOINT_def prod_eq_iff
          world.equality)
qed

subsection \<open>enumerate\<close>

lemma enumerate_loop_filter:
  "\<forall>d\<in>set devs. fatal d = None \<Longrightarrow>
   enumerate_loop pv devs acc w =
     (Inr (acc @ new_refs (length (heap w)) (filter passes devs)),
      w\<lparr>heap := heap w @ new_objects pv (length (heap w)) (filter passes devs),
        trace := trace w @ map GetProduct (filter probed devs)\<rparr>)"
proof (induction devs arbitrary: acc w)
  case Nil
  then show ?case by simp
next
  case (Cons d devs)
  have rest: "\<forall>x\<in>set devs. fatal x = None"
    using Cons.prems by simp
  have d: "fatal d = None"
    using Cons.prems by simp
  consider (skip) "\<not> probed d" | (drop) "probed d" "getProduct d = Inl USBErrorNotSupported"
    | (keep) p where "probed d" "getProduct d = Inr p"
    using d by (cases "getProduct d") (auto simp add: fatal_def probed_def split: if_splits sum.splits)
  then show ?case
  proof cases
    case skip
    then have "enumerate_loop pv (d # devs) acc w = enumerate_loop pv devs acc w"
      using d by (auto simp add: fatal_def probed_def supported_def split: sum.splits if_splits)
    then show ?thesis
      using skip by (simp add: Cons.IH [OF rest] passes_def)
  next
    case drop
    then have "enumerate_loop pv (d # devs) acc w =
        enumerate_loop pv devs acc (w\<lparr>trace := trace w @ [GetProduct d]\<rparr>)"
      by (simp add: probed_def supported_def Let_def)
    then show ?thesis
      using drop by (simp add: Cons.IH [OF rest] passes_def)
  next
    case keep
    then have "enumerate_loop pv (d # devs) acc w =
        enumerate_loop pv devs (acc @ [length (heap w) + 1])
          (w\<lparr>trace := trace w @ [GetProduct d],
             heap := heap w @ new_objects pv (length (heap w)) [d]\<rparr>)"
      by (simp add: probed_def supported_def Let_def WebUsbTransport_init_def alloc_def)
    then show ?thesis
      using keep by (simp add: Cons.IH [OF rest] passes_def)
  qed
qed

lemma enumerate_loop_fatal:
  "\<forall>x\<in>set pre. fatal x = None \<Longrightarrow> fatal d = Some e \<Longrightarrow>
   fst (enumerate_loop pv (pre @ d # post) acc w) = Inl e"
proof (induction pre arbitrary: acc w)
  case Nil
  then show ?case
    by (auto simp add: fatal_def supported_def Let_def split: if_splits sum.splits)
next
  case (Cons x pre)
  have x: "fatal x = None"
    using Cons.prems by simp
  have "\<exists>acc' w'. enumerate_loop pv (x # pre @ d # post) acc w =
          enumerate_loop pv (pre @ d # post) acc' w'"
    using x
    by (cases "WebUsbTransport_init pv x None False (w\<lparr>trace := trace w @ [GetProduct x]\<rparr>)")
       (auto simp add: fatal_def supported_def Let_def split: if_splits sum.splits)
  then show ?case
    using Cons.IH Cons.prems by auto
qed

lemma device_at_new_refs:
  "map (device_at (h @ new_objects pv (length h) devs @ ys)) (new_refs (length h) devs) = map Some devs"
proof (induction devs arbitrary: h)
  case Nil
  then show ?case by simp
next
  case (Cons d devs)
  let ?two = "new_objects pv (length h) [d]"
  have "map (device_at ((h @ ?two) @ new_objects pv (length (h @ ?two)) devs @ ys))
          (new_refs (length (h @ ?two)) devs) = map Some devs"
    by (rule Cons.IH)
  moreover have "device_at (h @ new_objects pv (length h) (d # devs) @ ys) (length h + 1) = Some d"
    by (simp add: device_at_def nth_append)
  ultimately show ?case
    by simp
qed

lemma length_new_refs: "length (new_refs base devs) = length devs"
  by (induction devs arbitrary: base) simp_all

lemma enumerate_scan:
  assumes "cls_context w \<or> context_open drv (trace w @ [ContextCreate]) = Inr ()"
    and "getDeviceIterator drv (scan_trace w) = Inr devs"
  shows "WebUsbTransport_enumerate drv pv w =
           enumerate_loop pv devs []
             (w\<lparr>cls_context := True, trace := scan_trace w @ [GetDeviceIterator]\<rparr>)"
proof (cases "cls_context w")
  case True
  then have "w\<lparr>cls_context := True\<rparr> = w"
    by (cases w) simp
  then have eq: "w\<lparr>cls_context := True, trace := trace w @ [GetDeviceIterator]\<rparr> =
      w\<lparr>trace := trace w @ [GetDeviceIterator]\<rparr>"
    by simp
  have "WebUsbTransport_enumerate drv pv w =
      enumerate_loop pv devs [] (w\<lparr>trace := trace w @ [GetDeviceIterator]\<rparr>)"
    using True assms(2)
    by (simp add: WebUsbTransport_enumerate_def scan_trace_def Let_def)
  also have "\<dots> = enumerate_loop pv devs []
      (w\<lparr>cls_context := True, trace := trace w @ [GetDeviceIterator]\<rparr>)"
    unfolding eq ..
  finally show ?thesis
    using True by (simp add: scan_trace_def)
next
  case False
  then show ?thesis
    using assms
    by (simp add: WebUsbTransport_enumerate_def scan_trace_def Let_def)
qed

lemma sim_device_class: "is_vendor_class (sim_device ids cls probe) = Inr (cls = 0xff)"
  by (simp add: is_vendor_class_def getitem_def sim_device_def INTERFACE_def
        LIBUSB_CLASS_VENDOR_SPEC_def)

lemma sim_device_supported:
  "supported (sim_device DEV_TREZOR1 cls probe)"
  "supported (sim_device DEV_TREZOR2 cls probe)"
  "supported (sim_device DEV_TREZOR2_BL cls probe)"
  "\<not> supported (sim_device (0x1234, 0x5678) cls probe)"
  by (simp_all add: supported_def is_trezor1_def is_trezor2_def is_trezor2_bl_def sim_device_def
        DEV_TREZOR1_def DEV_TREZOR2_def DEV_TREZOR2_BL_def)

lemma sim_device_probe: "getProduct (sim_device ids cls probe) = probe"
  by (simp add: sim_device_def)

lemma sim_scan:
  "cls_context empty_world \<or>
     context_open (sim_driver oa ca ra m buf devs) (trace empty_world @ [ContextCreate]) = Inr ()"
  "getDeviceIterator (sim_driver oa ca ra m buf devs) (scan_trace empty_world) = Inr devs"
  by (simp_all add: sim_driver_def)

text \<open>
  C7. When the context can be opened, the device list is delivered and no descriptor
  makes the scan raise, \<open>enumerate\<close> returns one new transport for each descriptor that
  passes the filters, in the order of the device list, and nothing else; a descriptor
  passes only if its IDs are supported and the class of configuration 0, interface 0,
  alternate setting 0 is vendor-specific. For three descriptors, the first passing, the
  second supported but not of vendor class, the third unsupported, the result is
  exactly one transport, over the first.
\<close>

theorem enumerate_filters:
  assumes "cls_context w \<or> context_open drv (trace w @ [ContextCreate]) = Inr ()"
    and "getDeviceIterator drv (scan_trace w) = Inr devs"
    and "\<forall>d\<in>set devs. fatal d = None"
    and "ew = WebUsbTransport_enumerate drv pv w"
  shows "(\<exists>refs. fst ew = Inr refs \<and> distinct refs \<and>
            length refs = length (filter passes devs) \<and>
            map (device_at (heap (snd ew))) refs = map Some (filter passes devs) \<and>
            (\<forall>r\<in>set refs. length (heap w) \<le> r)) \<and>
         (\<forall>d. passes d \<longrightarrow> supported d \<and> is_vendor_class d = Inr True) \<and>
         (\<forall>d1 d2 d3. devs = [d1, d2, d3] \<and> passes d1 \<and>
            supported d2 \<and> is_vendor_class d2 = Inr False \<and> \<not> supported d3 \<longrightarrow>
            fst ew = Inr [length (heap w) + 1] \<and>
            heap (snd ew) = heap w @ new_objects pv (length (heap w)) [d1])"
proof -
  let ?w1 = "w\<lparr>cls_context := True, trace := scan_trace w @ [GetDeviceIterator]\<rparr>"
  have ew: "ew = (Inr (new_refs (length (heap w)) (filter passes devs)),
      ?w1\<lparr>heap := heap w @ new_objects pv (length (heap w)) (filter passes devs),
          trace := trace ?w1 @ map GetProduct (filter probed devs)\<rparr>)"
    using enumerate_scan [OF assms(1,2), of pv] enumerate_loop_filter [OF assms(3), of pv "[]" ?w1]
      assms(4)
    by simp
  have dist: "distinct (new_refs base ds) \<and> (\<forall>r\<in>set (new_refs base ds). base \<le> r)" for base ds
  proof (induction ds arbitrary: base)
    case Nil
    then show ?case by simp
  next
    case (Cons d ds)
    have "distinct (new_refs (base + 2) ds) \<and> (\<forall>r\<in>set (new_refs (base + 2) ds). base + 2 \<le> r)"
      by (rule Cons.IH)
    then show ?case by fastforce
  qed
  have at: "map (device_at (heap (snd ew))) (new_refs (length (heap w)) (filter passes devs)) =
      map Some (filter passes devs)"
    using device_at_new_refs [of "heap w" pv "filter passes devs" "[]"] by (simp add: ew)
  have 1: "\<exists>refs. fst ew = Inr refs \<and> distinct refs \<and>
            length refs = length (filter passes devs) \<and>
            map (device_at (heap (snd ew))) refs = map Some (filter passes devs) \<and>
            (\<forall>r\<in>set refs. length (heap w) \<le> r)"
    using at dist [of "length (heap w)" "filter passes devs"]
    by (intro exI [of _ "new_refs (length (heap w)) (filter passes devs)"])
       (simp add: ew length_new_refs)
  have 2: "\<forall>d. passes d \<longrightarrow> supported d \<and> is_vendor_class d = Inr True"
    by (simp add: passes_def probed_def)
  have 3: "\<forall>d1 d2 d3. devs = [d1, d2, d3] \<and> passes d1 \<and>
            supported d2 \<and> is_vendor_class d2 = Inr False \<and> \<not> supported d3 \<longrightarrow>
            fst ew = Inr [length (heap w) + 1] \<and>
            heap (snd ew) = heap w @ new_objects pv (length (heap w)) [d1]"
    by (auto simp add: ew passes_def probed_def)
  show ?thesis
    using 1 2 3 by blast
qed

theorem enumerate_filters_witness:
  "fst (WebUsbTransport_enumerate (sim_driver (Inr None) (Inr ()) (Inr ()) 0 [] scan_devices)
          (\<lambda>h v2. 1) empty_world) = Inr [1] \<and>
   heap (snd (WebUsbTransport_enumerate (sim_driver (Inr None) (Inr ()) (Inr ()) 0 [] scan_devices)
          (\<lambda>h v2. 1) empty_world)) =
     [HandleObj (WebUsbHandle_init (sim_device DEV_TREZOR2 0xff (Inr (Some ''TREZOR''))) False),
      TransportObj \<lparr>transport_device = sim_device DEV_TREZOR2 0xff (Inr (Some ''TREZOR'')),
        transport_handle = 0, transport_debug = False,
        protocol = \<lparr>protocol_handle = 0, VERSION = 1\<rparr>\<rparr>]"
proof -
  have f: "\<forall>d\<in>set scan_devices. fatal d = None"
    by (simp add: scan_devices_def fatal_def sim_device_supported sim_device_class
          sim_device_probe)
  have p: "passes (sim_device DEV_TREZOR2 0xff (Inr (Some ''TREZOR'')))"
    by (simp add: passes_def probed_def sim_device_supported sim_device_class sim_device_probe)
  have q: "supported (sim_device DEV_TREZOR1 3 (Inr None))"
    "is_vendor_class (sim_device DEV_TREZOR1 3 (Inr None)) = Inr False"
    "\<not> supported (sim_device (0x1234, 0x5678) 0xff (Inr None))"
    by (simp_all add: sim_device_supported sim_device_class)
  have h: "heap empty_world = []"
    by (simp add: empty_world_def)
  show ?thesis
    using enumerate_filters [OF sim_scan f refl, where pv = "\<lambda>h v2. 1"] p q
    by (simp add: scan_devices_def h get_protocol_def)
qed

text \<open>
  C6. Let the descriptor \<open>d\<close> of the device list be supported and of vendor class, and
  let no earlier descriptor end the scan. If the product-string query on \<open>d\<close> raises
  \<open>USBErrorNotSupported\<close> and no later descriptor ends the scan, \<open>enumerate\<close> returns
  normally, with exactly the transports of the other descriptors that pass: \<open>d\<close> is
  dropped. If the query raises any other error, \<open>enumerate\<close> raises that error.
\<close>

theorem enumerate_probe_errors:
  assumes "cls_context w \<or> context_open drv (trace w @ [ContextCreate]) = Inr ()"
    and "getDeviceIterator drv (scan_trace w) = Inr (pre @ d # post)"
    and "\<forall>x\<in>set pre. fatal x = None"
    and "supported d" and "is_vendor_class d = Inr True"
    and "ew = WebUsbTransport_enumerate drv pv w"
  shows "(getProduct d = Inl USBErrorNotSupported \<and> (\<forall>x\<in>set post. fatal x = None) \<longrightarrow>
            fst ew = Inr (new_refs (length (heap w)) (filter passes (pre @ post))) \<and>
            heap (snd ew) =
              heap w @ new_objects pv (length (heap w)) (filter passes (pre @ post)) \<and>
            map (device_at (heap (snd ew))) (new_refs (length (heap w)) (filter passes (pre @ post))) =
              map Some (filter passes (pre @ post))) \<and>
         (\<forall>e. getProduct d = Inl e \<and> e \<noteq> USBErrorNotSupported \<longrightarrow>
            fst ew = Inl (USBError e))"
proof -
  let ?w1 = "w\<lparr>cls_context := True, trace := scan_trace w @ [GetDeviceIterator]\<rparr>"
  have ew: "ew = enumerate_loop pv (pre @ d # post) [] ?w1"
    using enumerate_scan [OF assms(1,2), of pv] assms(6) by simp
  have a: "fst ew = Inr (new_refs (length (heap w)) (filter passes (pre @ post))) \<and>
      heap (snd ew) = heap w @ new_objects pv (length (heap w)) (filter passes (pre @ post)) \<and>
      map (device_at (heap (snd ew))) (new_refs (length (heap w)) (filter passes (pre @ post))) =
        map Some (filter passes (pre @ post))"
    if drop: "getProduct d = Inl USBErrorNotSupported" and post: "\<forall>x\<in>set post. fatal x = None"
  proof -
    have "fatal d = None"
      using assms(4,5) drop by (simp add: fatal_def)
    then have all: "\<forall>x\<in>set (pre @ d # post). fatal x = None"
      using assms(3) post by auto
    have "\<not> passes d"
      using drop by (simp add: passes_def)
    then have same: "filter passes (pre @ d # post) = filter passes (pre @ post)"
      by simp
    have res: "ew = (Inr (new_refs (length (heap w)) (filter passes (pre @ post))),
        ?w1\<lparr>heap := heap w @ new_objects pv (length (heap w)) (filter passes (pre @ post)),
            trace := trace ?w1 @ map GetProduct (filter probed (pre @ d # post))\<rparr>)"
      using enumerate_loop_filter [OF all, of pv "[]" ?w1] unfolding same ew by simp
    show ?thesis
      using device_at_new_refs [of "heap w" pv "filter passes (pre @ post)" "[]"]
      by (simp add: res)
  qed
  have b: "fst ew = Inl (USBError e)" if "getProduct d = Inl e" and "e \<noteq> USBErrorNotSupported" for e
  proof -
    have "fatal d = Some (USBError e)"
      using assms(4,5) that by (simp add: fatal_def)
    then show ?thesis
      unfolding ew using assms(3) by (intro enumerate_loop_fatal)
  qed
  show ?thesis
    using a b by blast
qed

theorem enumerate_probe_errors_witness:
  "fst (WebUsbTransport_enumerate (sim_driver (Inr None) (Inr ()) (Inr ()) 0 [] ghost_devices)
          (\<lambda>h v2. 1) empty_world) = Inr [1] \<and>
   heap (snd (WebUsbTransport_enumerate (sim_driver (Inr None) (Inr ()) (Inr ()) 0 [] ghost_devices)
          (\<lambda>h v2. 1) empty_world)) =
     [HandleObj (WebUsbHandle_init (sim_device DEV_TREZOR2 0xff (Inr (Some ''TREZOR''))) False),
      TransportObj \<lparr>transport_device = sim_device DEV_TREZOR2 0xff (Inr (Some ''TREZOR'')),
        transport_handle = 0, transport_debug = False,
        protocol = \<lparr>protocol_handle = 0, VERSION = 1\<rparr>\<rparr>] \<and>
   fst (WebUsbTransport_enumerate
          (sim_driver (Inr None) (Inr ()) (Inr ()) 0 []
             (sim_device DEV_TREZOR1 0xff (Inl USBErrorAccess) # scan_devices))
          (\<lambda>h v2. 1) empty_world) = Inl (USBError USBErrorAccess)"
proof -
  let ?good = "sim_device DEV_TREZOR2 0xff (Inr (Some ''TREZOR''))"
  let ?ghost = "sim_device DEV_TREZOR2 0xff (Inl USBErrorNotSupported)"
  let ?broken = "sim_device DEV_TREZOR1 0xff (Inl USBErrorAccess)"
  let ?drv1 = "sim_driver (Inr None) (Inr ()) (Inr ()) 0 [] ghost_devices"
  let ?drv2 = "sim_driver (Inr None) (Inr ()) (Inr ()) 0 [] (?broken # scan_devices)"
  have it1: "getDeviceIterator ?drv1 (scan_trace empty_world) = Inr ([] @ ?ghost # [?good])"
    by (simp add: sim_driver_def ghost_devices_def)
  have it2: "getDeviceIterator ?drv2 (scan_trace empty_world) = Inr ([] @ ?broken # scan_devices)"
    by (simp add: sim_driver_def)
  have pre: "\<forall>x\<in>set []. fatal x = None"
    by simp
  have post: "\<forall>x\<in>set [?good]. fatal x = None"
    by (simp add: fatal_def sim_device_supported sim_device_class sim_device_probe)
  have p: "filter passes ([] @ [?good]) = [?good]"
    by (simp add: passes_def probed_def sim_device_supported sim_device_class sim_device_probe)
  have h: "heap empty_world = []"
    by (simp add: empty_world_def)
  have c: "is_vendor_class (sim_device ids 0xff probe) = Inr True" for ids probe
    by (simp add: sim_device_class)
  have 1: "fst (WebUsbTransport_enumerate ?drv1 (\<lambda>h v2. 1) empty_world) = Inr [1] \<and>
           heap (snd (WebUsbTransport_enumerate ?drv1 (\<lambda>h v2. 1) empty_world)) =
             [HandleObj (WebUsbHandle_init ?good False),
              TransportObj \<lparr>transport_device = ?good,
                transport_handle = 0, transport_debug = False,
                protocol = \<lparr>protocol_handle = 0, VERSION = 1\<rparr>\<rparr>]"
    using enumerate_probe_errors [OF sim_scan(1) it1 pre sim_device_supported(2) c refl,
        where pv = "\<lambda>h v2. 1"] post
    unfolding p by (simp add: sim_device_probe h get_protocol_def)
  have 2: "fst (WebUsbTransport_enumerate ?drv2 (\<lambda>h v2. 1) empty_world) =
      Inl (USBError USBErrorAccess)"
    using enumerate_probe_errors [OF sim_scan(1) it2 pre sim_device_supported(1) c refl,
        where pv = "\<lambda>h v2. 1"]
    by (simp add: sim_device_probe)
  show ?thesis
    using 1 2 by blast
qed

end
